theory Spec2Isabelle
  imports Main
begin

section \<open>Strings\<close>

text \<open>
  A Python \<open>str\<close> is a sequence of Unicode code points and \<open>len\<close> counts code points.
  The renderer's literals use box-drawing characters beyond ASCII, so a string is modelled
  as the list of its code points.
\<close>

type_synonym pystr = "nat list"

definition ascii :: "string \<Rightarrow> pystr" where
  "ascii s = map of_char s"

text \<open>The box-drawing code points used by \<open>star_style.py\<close>.\<close>

definition BOX_H :: nat where "BOX_H = 9472"    \<comment> \<open>U+2500, horizontal rule\<close>
definition BOX_V :: nat where "BOX_V = 9474"    \<comment> \<open>U+2502, vertical rule\<close>
definition BOX_VR :: nat where "BOX_VR = 9500"  \<comment> \<open>U+251C, vertical and right\<close>
definition BOX_VL :: nat where "BOX_VL = 9508"  \<comment> \<open>U+2524, vertical and left\<close>
definition BOX_UH :: nat where "BOX_UH = 9524"  \<comment> \<open>U+2534, up and horizontal\<close>
definition SPACE :: nat where "SPACE = 32"

section \<open>The tree model (\<open>node.py\<close>)\<close>

text \<open>
  \<open>JSONComposite\<close> and \<open>JSONLeaf\<close> are the two subclasses of the abstract \<open>JSONNode\<close>.
  The fields are, in the order of the constructors: \<open>_name\<close>, \<open>_level\<close>, \<open>_id\<close>, and then
  \<open>_children\<close> for a composite or \<open>_value\<close> (\<open>None\<close> or a string) for a leaf.
  In the source only a composite has \<open>get_children\<close> and only a leaf has \<open>get_value\<close>; the
  program calls \<open>get_value\<close> only after \<open>is_leaf\<close>, and the functions below keep that test.
  Here \<open>get_children\<close> of a leaf is the empty list and \<open>get_value\<close> of a composite is
  \<open>None\<close>, which only the statements of the properties rely on.
\<close>

datatype node =
    JSONComposite pystr int int "node list"
  | JSONLeaf pystr int int "pystr option"

fun get_name :: "node \<Rightarrow> pystr" where
  "get_name (JSONComposite name level ident children) = name"
| "get_name (JSONLeaf name level ident v) = name"

fun get_level :: "node \<Rightarrow> int" where
  "get_level (JSONComposite name level ident children) = level"
| "get_level (JSONLeaf name level ident v) = level"

fun get_id :: "node \<Rightarrow> int" where
  "get_id (JSONComposite name level ident children) = ident"
| "get_id (JSONLeaf name level ident v) = ident"

fun get_children :: "node \<Rightarrow> node list" where
  "get_children (JSONComposite name level ident children) = children"
| "get_children (JSONLeaf name level ident v) = []"

fun get_value :: "node \<Rightarrow> pystr option" where
  "get_value (JSONComposite name level ident children) = None"
| "get_value (JSONLeaf name level ident v) = v"

fun is_leaf :: "node \<Rightarrow> bool" where
  "is_leaf (JSONComposite name level ident children) = False"
| "is_leaf (JSONLeaf name level ident v) = True"

definition is_root :: "node \<Rightarrow> bool" where
  "is_root n = (get_level n = 0)"

section \<open>The tree builder (\<open>JSONNodeFactory\<close>)\<close>

text \<open>
  The value returned by \<open>json.load\<close>: \<open>None\<close>, a \<open>bool\<close>, an \<open>int\<close>, a \<open>float\<close>, a \<open>str\<close>,
  a \<open>list\<close> or a \<open>dict\<close>. A \<open>dict\<close> is the list of its items in iteration (insertion) order.
  A float is carried as the text that \<open>str\<close> gives for it; floating-point formatting is not
  modelled.
\<close>

datatype scalar = PyNone | PyBool bool | PyInt int | PyFloat pystr | PyStr pystr

datatype json =
    JScalar scalar
  | JList "json list"
  | JDict "(pystr \<times> json) list"

text \<open>\<open>str\<close> of a non-negative integer: its decimal digits (code point 48 is the digit 0).\<close>

fun str_nat :: "nat \<Rightarrow> pystr" where
  "str_nat n = (if n < 10 then [48 + n] else str_nat (n div 10) @ [48 + n mod 10])"

declare str_nat.simps [simp del]

definition str_int :: "int \<Rightarrow> pystr" where
  "str_int i = (if i < 0 then 45 # str_nat (nat (- i)) else str_nat (nat i))"

fun py_str :: "scalar \<Rightarrow> pystr" where
  "py_str PyNone = ascii ''None''"
| "py_str (PyBool b) = (if b then ascii ''True'' else ascii ''False'')"
| "py_str (PyInt i) = str_int i"
| "py_str (PyFloat s) = s"
| "py_str (PyStr s) = s"

text \<open>
  The module-level counter \<open>id\<close> is threaded through the builder: every function that
  constructs nodes takes the counter and returns it updated. \<open>JSONNode.__init__\<close> gives the
  new node the current value and increments the counter.
\<close>

definition create_leaf :: "pystr \<Rightarrow> int \<Rightarrow> scalar \<Rightarrow> int \<Rightarrow> node \<times> int" where
  "create_leaf name level obj c =
     (if obj = PyNone then (JSONLeaf name level c None, c + 1)
      else (JSONLeaf name level c (Some (py_str obj)), c + 1))"

text \<open>
  \<open>create_aux\<close> is \<open>_create\<close>. \<open>list_loop\<close> and \<open>dict_loop\<close> are the \<open>for\<close> loops of
  \<open>_create_composite_from_list\<close> and \<open>_create_composite_from_dict\<close>: they carry the
  \<open>_children\<close> list of the composite under construction, to which \<open>add_child\<close> appends.
  The composite itself is constructed (and takes its id) before its children.
\<close>

function create_aux :: "pystr \<Rightarrow> int \<Rightarrow> json \<Rightarrow> int \<Rightarrow> node \<times> int"
  and create_composite_from_list :: "pystr \<Rightarrow> int \<Rightarrow> json list \<Rightarrow> int \<Rightarrow> node \<times> int"
  and create_composite_from_dict ::
    "pystr \<Rightarrow> int \<Rightarrow> (pystr \<times> json) list \<Rightarrow> int \<Rightarrow> node \<times> int"
  and list_loop :: "int \<Rightarrow> nat \<Rightarrow> json list \<Rightarrow> node list \<Rightarrow> int \<Rightarrow> node list \<times> int"
  and dict_loop :: "int \<Rightarrow> (pystr \<times> json) list \<Rightarrow> node list \<Rightarrow> int \<Rightarrow> node list \<times> int"
where
  "create_aux name level (JList obj) c = create_composite_from_list name level obj c"
| "create_aux name level (JDict obj) c = create_composite_from_dict name level obj c"
| "create_aux name level (JScalar obj) c = create_leaf name level obj c"
| "create_composite_from_list name level obj c =
     (case list_loop level 0 obj [] (c + 1) of
        (children, c') \<Rightarrow> (JSONComposite name level c children, c'))"
| "create_composite_from_dict name level obj c =
     (case dict_loop level obj [] (c + 1) of
        (children, c') \<Rightarrow> (JSONComposite name level c children, c'))"
| "list_loop level idx [] children c = (children, c)"
| "list_loop level idx (item # rest) children c =
     (case create_aux (ascii ''Array['' @ str_nat idx @ ascii '']'') (level + 1) item c of
        (child, c') \<Rightarrow> list_loop level (Suc idx) rest (children @ [child]) c')"
| "dict_loop level [] children c = (children, c)"
| "dict_loop level ((key, val) # rest) children c =
     (case create_aux key (level + 1) val c of
        (child, c') \<Rightarrow> dict_loop level rest (children @ [child]) c')"
  by pat_completeness auto
termination
  by (relation "measure (\<lambda>x. case x of
        Inl (Inl (name, level, obj, c)) \<Rightarrow> 2 * size obj + 1
      | Inl (Inr (name, level, obj, c)) \<Rightarrow> 2 * size_list size obj + 2
      | Inr (Inl (name, level, obj, c)) \<Rightarrow>
          2 * size_list (size_prod (\<lambda>k. 0) size) obj + 2
      | Inr (Inr (Inl (level, idx, obj, children, c))) \<Rightarrow> 2 * size_list size obj + 1
      | Inr (Inr (Inr (level, obj, children, c))) \<Rightarrow>
          2 * size_list (size_prod (\<lambda>k. 0) size) obj + 1)")
     simp_all

text \<open>\<open>JSONNodeFactory.create\<close>: the root has the empty name and level 0.\<close>

definition create :: "json \<Rightarrow> int \<Rightarrow> node \<times> int" where
  "create json_data c = create_aux [] 0 json_data c"

text \<open>
  Failures. Every failure the program raises itself is an \<open>FJEException\<close> with a message;
  the constructors stand for the messages. \<open>JSONDecodeError\<close> is what \<open>json.load\<close> raises.
\<close>

datatype error =
    FJE_FileNotFound pystr
  | FJE_InvalidRoot
  | FJE_UnknownIconFamily pystr
  | FJE_UnknownStyle pystr
  | JSONDecodeError

fun is_dict_or_list :: "json \<Rightarrow> bool" where
  "is_dict_or_list (JScalar x) = False"
| "is_dict_or_list (JList xs) = True"
| "is_dict_or_list (JDict kvs) = True"

text \<open>
  \<open>JSONNodeFactory.__init__\<close>. The file system is a map from paths to file contents and
  the JSON parser \<open>json_load\<close> (the standard library's) is a parameter. The result is the
  factory's \<open>json_data\<close>. No node is constructed here: the counter is not touched.
\<close>

definition JSONNodeFactory_init ::
  "(pystr \<Rightarrow> error + json) \<Rightarrow> (pystr \<rightharpoonup> pystr) \<Rightarrow> pystr \<Rightarrow> error + json" where
  "JSONNodeFactory_init json_load files filepath =
     (case files filepath of
        None \<Rightarrow> Inl (FJE_FileNotFound filepath)
      | Some text \<Rightarrow>
          (case json_load text of
             Inl e \<Rightarrow> Inl e
           | Inr json_data \<Rightarrow>
               if \<not> is_dict_or_list json_data then Inl FJE_InvalidRoot
               else Inr json_data))"

section \<open>Traversal (\<open>accept\<close>)\<close>

text \<open>
  A visitor is a pair of methods that update the visitor's own state.
  \<open>JSONComposite.accept\<close> calls \<open>visit_composite\<close> on the node and then \<open>accept\<close> on each
  child, in the order of \<open>_children\<close>; \<open>JSONLeaf.accept\<close> calls \<open>visit_leaf\<close>.
\<close>

record 's visitor =
  visit_composite :: "node \<Rightarrow> 's \<Rightarrow> 's"
  visit_leaf :: "node \<Rightarrow> 's \<Rightarrow> 's"

fun accept :: "'s visitor \<Rightarrow> node \<Rightarrow> 's \<Rightarrow> 's" where
  "accept v (JSONComposite name level ident children) s =
     fold (accept v) children (visit_composite v (JSONComposite name level ident children) s)"
| "accept v (JSONLeaf name level ident x) s =
     visit_leaf v (JSONLeaf name level ident x) s"

text \<open>
  The method of a visitor that \<open>accept\<close> calls on a node (the double dispatch), and a
  visitor that records the nodes it is called on, in the order of the calls.
\<close>

definition visit :: "'s visitor \<Rightarrow> node \<Rightarrow> 's \<Rightarrow> 's" where
  "visit v n = (if is_leaf n then visit_leaf v n else visit_composite v n)"

definition Recorder :: "(node list) visitor" where
  "Recorder = \<lparr>visit_composite = (\<lambda>n log. log @ [n]), visit_leaf = (\<lambda>n log. log @ [n])\<rparr>"

section \<open>The first/last analysis pass\<close>

record first_last =
  first_visited :: bool
  first_id :: "int option"
  last_id :: "int option"

definition FirstLastVisitor_init :: first_last where
  "FirstLastVisitor_init = \<lparr>first_visited = False, first_id = None, last_id = None\<rparr>"

text \<open>\<open>visit_composite\<close> and \<open>visit_leaf\<close> of \<open>FirstLastVisitor\<close> have the same body.\<close>

definition fl_visit :: "node \<Rightarrow> first_last \<Rightarrow> first_last" where
  "fl_visit n s =
     (let s1 = (if \<not> first_visited s
                then s\<lparr>first_visited := True, first_id := Some (get_id n)\<rparr>
                else s)
      in s1\<lparr>last_id := Some (get_id n)\<rparr>)"

definition FirstLastVisitor :: "first_last visitor" where
  "FirstLastVisitor = \<lparr>visit_composite = fl_visit, visit_leaf = fl_visit\<rparr>"

definition is_first :: "first_last \<Rightarrow> node \<Rightarrow> bool" where
  "is_first s n = (Some (get_id n) = first_id s)"

definition is_last :: "first_last \<Rightarrow> node \<Rightarrow> bool" where
  "is_last s n = (Some (get_id n) = last_id s)"

section \<open>The width analysis pass\<close>

text \<open>
  The only attribute of \<open>GridWidthVisitor\<close> is \<open>grid_width\<close>, so the visitor's state is that
  integer; it starts at 16. \<open>visit_composite\<close> and \<open>visit_leaf\<close> both call
  \<open>update_grid_width\<close>.
\<close>

definition GridWidthVisitor_init :: int where
  "GridWidthVisitor_init = 16"

definition update_grid_width :: "node \<Rightarrow> int \<Rightarrow> int" where
  "update_grid_width n grid_width =
     (let prefix_length = max ((get_level n - 1) * 3 + 2) 0;
          name_length = int (length (get_name n)) + 2;
          name_length' =
            (if is_leaf n then
               (case get_value n of
                  None \<Rightarrow> name_length
                | Some v \<Rightarrow> name_length + (int (length v) + 2))
             else name_length);
          name_length'' = name_length' + 4
      in max grid_width (prefix_length + name_length'' + 2))"

definition GridWidthVisitor :: "int visitor" where
  "GridWidthVisitor = \<lparr>visit_composite = update_grid_width, visit_leaf = update_grid_width\<rparr>"

section \<open>The renderer (\<open>star_style.py\<close>)\<close>

text \<open>
  Modelled from the spec: the class \<open>IconFamily\<close> (\<open>icon.py\<close>) is not among the sources.
  The spec describes an icon family as a pair of glyph strings, one for composite nodes and
  one for leaf nodes; the renderer reads them as \<open>composite_icon\<close> and \<open>leaf_icon\<close>.
\<close>

record icon_family =
  composite_icon :: pystr
  leaf_icon :: pystr

record render_visitor =
  rv_grid_width :: int
  rv_fl_visitor :: first_last
  rv_icon_family :: icon_family

text \<open>\<open>s.ljust(width, fillchar)\<close> and \<open>s * n\<close> of Python; a width or a count below the
  length or below zero leaves the string as it is or gives the empty string.\<close>

definition ljust :: "pystr \<Rightarrow> int \<Rightarrow> nat \<Rightarrow> pystr" where
  "ljust s width fillchar = s @ replicate (nat (width - int (length s))) fillchar"

definition str_mul :: "pystr \<Rightarrow> int \<Rightarrow> pystr" where
  "str_mul s n = concat (replicate (nat n) s)"

text \<open>
  \<open>render_line\<close> is the body of \<open>render_node\<close> after the root test: the value of \<open>result\<close>
  that is printed. Each \<open>r\<close> below is \<open>result\<close> after one more step of the source.
\<close>

definition render_line :: "render_visitor \<Rightarrow> node \<Rightarrow> pystr" where
  "render_line rv n =
     (let fl = rv_fl_visitor rv;
          r1 = (if is_first fl n then [BOX_H, BOX_H]
                else if is_last fl n then [BOX_H, BOX_H]
                else if get_level n = 1 then [BOX_VR, BOX_H]
                else [BOX_V, SPACE]);
          r2 = (if get_level n > 2 then
                  (if is_last fl n then r1 @ str_mul [BOX_H, BOX_UH, BOX_H] (get_level n - 2)
                   else r1 @ str_mul [SPACE, BOX_V, SPACE] (get_level n - 2))
                else r1);
          r3 = (if is_last fl n then r2 @ [BOX_H, BOX_UH, BOX_H]
                else if get_level n > 1 then r2 @ [SPACE, BOX_VR, BOX_H]
                else r2);
          r4 = (if is_leaf n then r3 @ leaf_icon (rv_icon_family rv)
                else r3 @ composite_icon (rv_icon_family rv));
          r5 = r4 @ ascii ''* '' @ get_name n @ ascii '' *'';
          r6 = (if is_leaf n then
                  (case get_value n of None \<Rightarrow> r5 | Some v \<Rightarrow> r5 @ ascii '': '' @ v)
                else r5);
          r7 = ljust (r6 @ ascii '' '') (rv_grid_width rv - 2) BOX_H;
          r8 = (if is_first fl n then r7 @ [BOX_H, BOX_H]
                else if is_last fl n then r7 @ [BOX_H, BOX_H]
                else r7 @ [BOX_H, BOX_VL])
      in r8)"

text \<open>The visitor's effect is \<open>print\<close>: the state is the list of lines printed so far.\<close>

definition render_node :: "render_visitor \<Rightarrow> node \<Rightarrow> pystr list \<Rightarrow> pystr list" where
  "render_node rv n out = (if is_root n then out else out @ [render_line rv n])"

definition RenderVisitor :: "render_visitor \<Rightarrow> (pystr list) visitor" where
  "RenderVisitor rv = \<lparr>visit_composite = render_node rv, visit_leaf = render_node rv\<rparr>"

text \<open>
  \<open>StarStyledJSONNode\<close>: the constructor runs the two analysis passes over the tree;
  \<open>render\<close> runs the rendering pass with their results.
\<close>

record star_styled =
  ss_root :: node
  ss_grid_width_visitor :: int
  ss_fl_visitor :: first_last
  ss_icon_family :: icon_family

definition StarStyledJSONNode_init :: "node \<Rightarrow> icon_family \<Rightarrow> star_styled" where
  "StarStyledJSONNode_init root fam =
     \<lparr>ss_root = root,
      ss_grid_width_visitor = accept GridWidthVisitor root GridWidthVisitor_init,
      ss_fl_visitor = accept FirstLastVisitor root FirstLastVisitor_init,
      ss_icon_family = fam\<rparr>"

definition render :: "star_styled \<Rightarrow> pystr list \<Rightarrow> pystr list" where
  "render st out =
     accept (RenderVisitor \<lparr>rv_grid_width = ss_grid_width_visitor st,
                            rv_fl_visitor = ss_fl_visitor st,
                            rv_icon_family = ss_icon_family st\<rparr>)
       (ss_root st) out"

section \<open>The builder of styled trees (\<open>StyledJSONBuilder\<close>)\<close>

text \<open>
  \<open>create_styled_json\<close>. The two registries of the builder (\<open>_icon_families\<close> and
  \<open>_styles_factory\<close>, whose tree and rectangle factories are not among the sources) are
  parameters: maps from a name to an icon family and to a style factory. The counter of
  node ids is passed through: it changes only when the tree is created.
\<close>

definition create_styled_json ::
  "(pystr \<Rightarrow> error + json) \<Rightarrow> (pystr \<rightharpoonup> pystr) \<Rightarrow> (pystr \<rightharpoonup> icon_family) \<Rightarrow>
   (pystr \<rightharpoonup> (node \<Rightarrow> icon_family \<Rightarrow> 'styled)) \<Rightarrow>
   pystr \<Rightarrow> pystr \<Rightarrow> pystr \<Rightarrow> int \<Rightarrow> (error + 'styled) \<times> int" where
  "create_styled_json json_load files icon_families styles_factory filepath icon_family style c =
     (case icon_families icon_family of
        None \<Rightarrow> (Inl (FJE_UnknownIconFamily icon_family), c)
      | Some fam \<Rightarrow>
          (case styles_factory style of
             None \<Rightarrow> (Inl (FJE_UnknownStyle style), c)
           | Some style_factory \<Rightarrow>
               (case JSONNodeFactory_init json_load files filepath of
                  Inl e \<Rightarrow> (Inl e, c)
                | Inr json_data \<Rightarrow>
                    (case create json_data c of
                       (json_node, c') \<Rightarrow> (Inr (style_factory json_node fam), c')))))"

section \<open>Listing a tree\<close>

text \<open>
  The nodes of a tree in pre-order: a node, then the listings of its children in their
  stored order. This is the specification's notion of traversal order; it is defined on
  the shape of the tree and does not use \<open>accept\<close>.
\<close>

fun preorder :: "node \<Rightarrow> node list" where
  "preorder (JSONComposite name level ident children) =
     JSONComposite name level ident children # concat (map preorder children)"
| "preorder (JSONLeaf name level ident v) = [JSONLeaf name level ident v]"

section \<open>The specification's width formula\<close>

text \<open>
  The width that the specification assigns to one node, written from its words:
  \<open>prefix_length = max((level - 1) * 3 + 2, 0)\<close>; \<open>name_length\<close> is \<open>len(name) + 2\<close>, plus
  \<open>len(value) + 2\<close> for a leaf with a non-null value, plus 4; the node's width is
  \<open>prefix_length + name_length + 2\<close>.
\<close>

definition spec_prefix_length :: "node \<Rightarrow> int" where
  "spec_prefix_length n = max ((get_level n - 1) * 3 + 2) 0"

definition spec_name_length :: "node \<Rightarrow> int" where
  "spec_name_length n =
     int (length (get_name n)) + 2
     + (case n of JSONLeaf name level ident (Some v) \<Rightarrow> int (length v) + 2 | _ \<Rightarrow> 0)
     + 4"

definition spec_width :: "node \<Rightarrow> int" where
  "spec_width n = spec_prefix_length n + spec_name_length n + 2"

section \<open>Auxiliary notions for the builder\<close>

text \<open>
  \<open>thread f xs c\<close> applies a node-building function to the elements of a list from left
  to right, handing the counter on from one call to the next, and collects the nodes. The
  two loops of the builder are instances of it. \<open>array_name\<close> is the f-string
  \<open>f'Array[{idx}]'\<close>. \<open>levels_ok\<close> says that every child in a tree has the level of its
  parent plus one.
\<close>

fun thread :: "('a \<Rightarrow> int \<Rightarrow> node \<times> int) \<Rightarrow> 'a list \<Rightarrow> int \<Rightarrow> node list \<times> int" where
  "thread f [] c = ([], c)"
| "thread f (x # xs) c =
     (case f x c of (n, c') \<Rightarrow> (case thread f xs c' of (ns, c'') \<Rightarrow> (n # ns, c'')))"

fun levels_ok :: "node \<Rightarrow> bool" where
  "levels_ok (JSONComposite name level ident children) =
     (\<forall>c \<in> set children. get_level c = level + 1 \<and> levels_ok c)"
| "levels_ok (JSONLeaf name level ident v) = True"

definition array_name :: "nat \<Rightarrow> pystr" where
  "array_name idx = ascii ''Array['' @ str_nat idx @ ascii '']''"

section \<open>Growing a tree\<close>

text \<open>
  \<open>extends t t'\<close>: the tree \<open>t'\<close> is obtained from \<open>t\<close> by adding nodes (new children, with
  their subtrees, anywhere in the child list of a composite), by replacing names by names
  that are at least as long, and by replacing non-null leaf values by values that are at
  least as long, any number of times. Levels are kept; ids are free to change.
  \<open>dominated A B\<close>: every node of \<open>A\<close> is at most as wide as some node of \<open>B\<close>.
\<close>

fun value_le :: "pystr option \<Rightarrow> pystr option \<Rightarrow> bool" where
  "value_le None None = True"
| "value_le (Some v) (Some v') = (length v \<le> length v')"
| "value_le None (Some v') = False"
| "value_le (Some v) None = False"

inductive extends :: "node \<Rightarrow> node \<Rightarrow> bool"
  and extends_children :: "node list \<Rightarrow> node list \<Rightarrow> bool" where
  ext_leaf: "length name \<le> length name' \<Longrightarrow> value_le v v' \<Longrightarrow>
     extends (JSONLeaf name level ident v) (JSONLeaf name' level ident' v')"
| ext_composite: "length name \<le> length name' \<Longrightarrow> extends_children cs cs' \<Longrightarrow>
     extends (JSONComposite name level ident cs) (JSONComposite name' level ident' cs')"
| ext_nil: "extends_children [] []"
| ext_keep: "extends c c' \<Longrightarrow> extends_children cs cs' \<Longrightarrow>
     extends_children (c # cs) (c' # cs')"
| ext_add: "extends_children cs cs' \<Longrightarrow> extends_children cs (new # cs')"

code_pred extends .

definition dominated :: "node set \<Rightarrow> node set \<Rightarrow> bool" where
  "dominated A B = (\<forall>n \<in> A. \<exists>n' \<in> B. spec_width n \<le> spec_width n')"

section \<open>Example documents\<close>

text \<open>
  The document \<open>{"a": 1, "b": [2, null]}\<close> of the specification with the tree it is built
  into, the document \<open>{"a": 1}\<close>, and the icon family registered as \<open>default\<close>, whose two
  icons are a single space.
\<close>

definition example_doc :: json where
  "example_doc = JDict [(ascii ''a'', JScalar (PyInt 1)),
                        (ascii ''b'', JList [JScalar (PyInt 2), JScalar PyNone])]"

definition example_tree :: node where
  "example_tree = JSONComposite [] 0 0
     [JSONLeaf (ascii ''a'') 1 1 (Some (ascii ''1'')),
      JSONComposite (ascii ''b'') 1 2
        [JSONLeaf (ascii ''Array[0]'') 2 3 (Some (ascii ''2'')),
         JSONLeaf (ascii ''Array[1]'') 2 4 None]]"

definition small_doc :: json where
  "small_doc = JDict [(ascii ''a'', JScalar (PyInt 1))]"

definition default_icon_family :: icon_family where
  "default_icon_family = \<lparr>composite_icon = [SPACE], leaf_icon = [SPACE]\<rparr>"

section \<open>Properties\<close>

subsection \<open>Traversal order\<close>

lemma visit_simps [simp]:
  "visit v (JSONComposite name level ident children) =
     visit_composite v (JSONComposite name level ident children)"
  "visit v (JSONLeaf name level ident x) = visit_leaf v (JSONLeaf name level ident x)"
  by (simp_all add: visit_def)

lemma accept_fold_preorder: "accept v t s = fold (visit v) (preorder t) s"
proof (induction v t s rule: accept.induct)
  case (1 v name level ident children s)
  have "fold (accept v) children s' = fold (visit v) (concat (map preorder children)) s'" for s'
    using 1
  proof (induction children arbitrary: s')
    case Nil
    then show ?case by simp
  next
    case (Cons c cs)
    then show ?case by simp
  qed
  then show ?case by simp
next
  case (2 v name level ident x s)
  then show ?case by simp
qed

lemma fold_append_log: "fold (\<lambda>n log. log @ [n]) xs acc = acc @ xs"
  by (induction xs arbitrary: acc) simp_all

lemma visit_Recorder: "visit Recorder = (\<lambda>n log. log @ [n])"
  by (auto simp: visit_def Recorder_def fun_eq_iff)

lemma accept_Recorder: "accept Recorder t [] = preorder t"
  by (simp add: accept_fold_preorder visit_Recorder fold_append_log)

lemma preorder_head: "preorder n = n # concat (map preorder (get_children n))"
  by (cases n) simp_all

lemma preorder_subtree:
  "n \<in> set (preorder t) \<Longrightarrow> \<exists>pre post. preorder t = pre @ preorder n @ post"
proof (induction t rule: preorder.induct)
  case (1 name level ident children)
  show ?case
  proof (cases "n = JSONComposite name level ident children")
    case True
    then show ?thesis by (metis append_Nil append_Nil2)
  next
    case False
    with 1(2) obtain c where c: "c \<in> set children" "n \<in> set (preorder c)" by auto
    from 1(1)[OF c] obtain pre post where pp: "preorder c = pre @ preorder n @ post" by blast
    from c(1) obtain cs1 cs2 where cs: "children = cs1 @ c # cs2" by (meson split_list)
    have "preorder (JSONComposite name level ident children) =
       (JSONComposite name level ident children # concat (map preorder cs1) @ pre)
         @ preorder n @ (post @ concat (map preorder cs2))"
      by (simp add: cs pp)
    then show ?thesis by blast
  qed
next
  case (2 name level ident v)
  then have "n = JSONLeaf name level ident v" by simp
  then show ?case by (metis append_Nil append_Nil2)
qed

text \<open>
  C4. \<open>accept\<close> is a pre-order, depth-first traversal, for every tree and every visitor.
  The visits of any visitor are the calls of its methods on the nodes of the recorded
  visit sequence, in that order; the recorded sequence is the pre-order listing of the
  tree; and every node of the sequence is followed at once by the visit sequences of its
  children, in their stored order, so that the visit of a node comes strictly before the
  visits of its descendants.
\<close>

theorem accept_preorder_traversal:
  "accept v t s = fold (visit v) (accept Recorder t []) s
   \<and> accept Recorder t [] = preorder t
   \<and> (n \<in> set (accept Recorder t []) \<longrightarrow>
        (\<exists>pre post. accept Recorder t [] =
           pre @ n # concat (map (\<lambda>c. accept Recorder c []) (get_children n)) @ post))"
proof -
  have "\<exists>pre post. preorder t = pre @ n # concat (map preorder (get_children n)) @ post"
    if "n \<in> set (preorder t)"
  proof -
    from preorder_subtree[OF that] obtain pre post
      where "preorder t = pre @ preorder n @ post" by blast
    then have "preorder t = pre @ n # concat (map preorder (get_children n)) @ post"
      using preorder_head[of n] by simp
    then show ?thesis by blast
  qed
  then show ?thesis
    unfolding accept_Recorder using accept_fold_preorder[of v t s] by simp
qed

theorem accept_preorder_traversal_witness:
  "JSONLeaf [97] 1 1 (Some [49])
     \<in> set (accept Recorder (JSONComposite [] 0 0
          [JSONLeaf [97] 1 1 (Some [49]), JSONLeaf [98] 1 2 None]) [])
   \<and> (\<exists>pre post.
        accept Recorder (JSONComposite [] 0 0
          [JSONLeaf [97] 1 1 (Some [49]), JSONLeaf [98] 1 2 None]) [] =
        pre @ JSONLeaf [97] 1 1 (Some [49])
          # concat (map (\<lambda>c. accept Recorder c []) (get_children (JSONLeaf [97] 1 1 (Some [49]))))
          @ post)"
  using accept_preorder_traversal
    [of Recorder "JSONComposite [] 0 0 [JSONLeaf [97] 1 1 (Some [49]), JSONLeaf [98] 1 2 None]"
        "[]" "JSONLeaf [97] 1 1 (Some [49])"]
  by (simp add: Recorder_def)

subsection \<open>Width analysis\<close>

lemma update_grid_width_spec: "update_grid_width n g = max g (spec_width n)"
  by (cases n) (auto simp: update_grid_width_def spec_width_def spec_prefix_length_def
      spec_name_length_def Let_def split: option.splits)

lemma visit_GridWidthVisitor: "visit GridWidthVisitor = update_grid_width"
  by (auto simp: visit_def GridWidthVisitor_def fun_eq_iff)

lemma fold_update_grid_width:
  "fold update_grid_width xs g0 = Max (insert g0 (spec_width ` set xs))"
proof (induction xs arbitrary: g0)
  case Nil
  then show ?case by simp
next
  case (Cons x xs)
  have "Max (insert (max g0 (spec_width x)) (spec_width ` set xs))
      = Max (insert g0 (insert (spec_width x) (spec_width ` set xs)))"
    by (cases "set xs = {}") (simp_all add: max.assoc)
  with Cons show ?case by (simp add: update_grid_width_spec)
qed

lemma grid_width_Max:
  "accept GridWidthVisitor t GridWidthVisitor_init =
     Max (insert 16 (spec_width ` set (preorder t)))"
  by (simp add: accept_fold_preorder visit_GridWidthVisitor GridWidthVisitor_init_def
      fold_update_grid_width)

text \<open>
  C2. After a full traversal of any tree, the width analysis pass holds the maximum of 16
  (its initial value) and of the widths of all nodes of the tree, the root included, where
  the width of a node is the specification's \<open>prefix_length + name_length + 2\<close>.
\<close>

theorem grid_width_is_floored_maximum:
  "accept GridWidthVisitor t GridWidthVisitor_init =
     Max (insert 16 ((\<lambda>n. spec_prefix_length n + spec_name_length n + 2) ` set (preorder t)))
   \<and> spec_prefix_length n = max ((get_level n - 1) * 3 + 2) 0
   \<and> spec_name_length (JSONComposite name level ident children) = int (length name) + 2 + 4
   \<and> spec_name_length (JSONLeaf name level ident None) = int (length name) + 2 + 4
   \<and> spec_name_length (JSONLeaf name level ident (Some x)) =
       int (length name) + 2 + (int (length x) + 2) + 4"
proof -
  have "accept GridWidthVisitor t GridWidthVisitor_init =
     Max (insert 16 ((\<lambda>n. spec_prefix_length n + spec_name_length n + 2) ` set (preorder t)))"
    unfolding grid_width_Max spec_width_def by (rule refl)
  moreover have "spec_prefix_length n = max ((get_level n - 1) * 3 + 2) 0"
    by (simp add: spec_prefix_length_def)
  moreover have
    "spec_name_length (JSONComposite name level ident children) = int (length name) + 2 + 4"
    "spec_name_length (JSONLeaf name level ident None) = int (length name) + 2 + 4"
    "spec_name_length (JSONLeaf name level ident (Some x)) =
       int (length name) + 2 + (int (length x) + 2) + 4"
    by (simp_all add: spec_name_length_def)
  ultimately show ?thesis by blast
qed

lemma grid_width_ge_node:
  "n \<in> set (preorder t) \<Longrightarrow> spec_width n \<le> accept GridWidthVisitor t GridWidthVisitor_init"
  by (simp add: grid_width_Max)

lemma grid_width_ge_16: "16 \<le> accept GridWidthVisitor t GridWidthVisitor_init"
  by (simp add: grid_width_Max)

lemma dominated_Un: "dominated A A' \<Longrightarrow> dominated B B' \<Longrightarrow> dominated (A \<union> B) (A' \<union> B')"
  unfolding dominated_def by blast

lemma dominated_weaken: "dominated A B' \<Longrightarrow> dominated A (A' \<union> B')"
  unfolding dominated_def by blast

lemma dominated_single: "spec_width a \<le> spec_width b \<Longrightarrow> dominated {a} {b}"
  unfolding dominated_def by blast

lemma dominated_empty: "dominated {} B"
  unfolding dominated_def by blast

lemma set_preorder_composite:
  "set (preorder (JSONComposite name level ident cs)) =
     {JSONComposite name level ident cs} \<union> set (concat (map preorder cs))"
  by simp

lemma set_preorder_cons:
  "set (concat (map preorder (c # cs))) = set (preorder c) \<union> set (concat (map preorder cs))"
  by simp

lemma extends_widths:
  "extends t t' \<Longrightarrow> dominated (set (preorder t)) (set (preorder t'))"
  "extends_children cs cs' \<Longrightarrow>
     dominated (set (concat (map preorder cs))) (set (concat (map preorder cs')))"
proof (induction rule: extends_extends_children.inducts)
  case (ext_leaf name name' v v' level ident ident')
  have "spec_width (JSONLeaf name level ident v) \<le> spec_width (JSONLeaf name' level ident' v')"
    using ext_leaf
    by (cases v; cases v')
       (simp_all add: spec_width_def spec_prefix_length_def spec_name_length_def)
  from dominated_single[OF this] show ?case by simp
next
  case (ext_composite name name' cs cs' level ident ident')
  have "spec_width (JSONComposite name level ident cs)
      \<le> spec_width (JSONComposite name' level ident' cs')"
    using ext_composite(1)
    by (simp add: spec_width_def spec_prefix_length_def spec_name_length_def)
  from dominated_Un[OF dominated_single[OF this] ext_composite(3)]
  show ?case unfolding set_preorder_composite .
next
  case ext_nil
  show ?case by (simp add: dominated_empty)
next
  case (ext_keep c c' cs cs')
  from dominated_Un[OF ext_keep(3) ext_keep(4)]
  show ?case unfolding set_preorder_cons .
next
  case (ext_add cs cs' new)
  from dominated_weaken[OF ext_add(2)]
  show ?case unfolding set_preorder_cons .
qed

lemma grid_width_mono:
  assumes "extends t t'"
  shows "accept GridWidthVisitor t GridWidthVisitor_init
       \<le> accept GridWidthVisitor t' GridWidthVisitor_init"
proof -
  let ?B = "insert 16 (spec_width ` set (preorder t'))"
  have d: "dominated (set (preorder t)) (set (preorder t'))"
    using extends_widths(1)[OF assms] .
  have fin: "finite ?B" and ne: "?B \<noteq> {}" by simp_all
  have "a \<le> Max ?B" if "a \<in> insert 16 (spec_width ` set (preorder t))" for a
  proof -
    from that consider "a = 16" | n where "n \<in> set (preorder t)" "a = spec_width n" by auto
    then show ?thesis
    proof cases
      case 1
      have "(16::int) \<in> ?B" by simp
      from Max_ge[OF fin this] 1 show ?thesis by simp
    next
      case 2
      with d obtain n' where n': "n' \<in> set (preorder t')" "a \<le> spec_width n'"
        unfolding dominated_def by blast
      have "spec_width n' \<in> ?B" using n'(1) by simp
      from Max_ge[OF fin this] n'(2) show ?thesis by linarith
    qed
  qed
  then have "Max (insert 16 (spec_width ` set (preorder t))) \<le> Max ?B"
    by (intro Max.boundedI) simp_all
  then show ?thesis unfolding grid_width_Max .
qed

text \<open>
  C8. The width analysis is monotonic: growing a tree (adding nodes, lengthening names,
  lengthening non-null leaf values) never decreases the computed grid width; and the
  computed grid width of every tree is at least 16.
\<close>

theorem grid_width_monotonic:
  "(extends t t' \<longrightarrow>
      accept GridWidthVisitor t GridWidthVisitor_init
        \<le> accept GridWidthVisitor t' GridWidthVisitor_init)
   \<and> 16 \<le> accept GridWidthVisitor t GridWidthVisitor_init"
  using grid_width_mono[of t t'] grid_width_ge_16[of t] by blast

theorem grid_width_monotonic_witness:
  "extends
     (JSONComposite [] 0 0 [JSONLeaf (ascii ''a'') 1 1 (Some (ascii ''1''))])
     (JSONComposite [] 0 0 [JSONLeaf (ascii ''a_longer_name'') 1 1 (Some (ascii ''12345'')),
                            JSONLeaf (ascii ''b'') 1 2 None])
   \<and> accept GridWidthVisitor
        (JSONComposite [] 0 0 [JSONLeaf (ascii ''a'') 1 1 (Some (ascii ''1''))])
        GridWidthVisitor_init
     \<le> accept GridWidthVisitor
        (JSONComposite [] 0 0 [JSONLeaf (ascii ''a_longer_name'') 1 1 (Some (ascii ''12345'')),
                               JSONLeaf (ascii ''b'') 1 2 None])
        GridWidthVisitor_init
   \<and> 16 \<le> accept GridWidthVisitor
        (JSONComposite [] 0 0 [JSONLeaf (ascii ''a'') 1 1 (Some (ascii ''1''))])
        GridWidthVisitor_init"
proof -
  have "extends_children [] []" by (rule extends_extends_children.intros(3))
  then have "extends_children [] [JSONLeaf (ascii ''b'') 1 2 None]"
    by (rule extends_extends_children.intros(5))
  moreover have "extends (JSONLeaf (ascii ''a'') 1 1 (Some (ascii ''1'')))
      (JSONLeaf (ascii ''a_longer_name'') 1 1 (Some (ascii ''12345'')))"
    by (rule extends_extends_children.intros(1)) (simp_all add: ascii_def)
  ultimately have "extends_children [JSONLeaf (ascii ''a'') 1 1 (Some (ascii ''1''))]
      [JSONLeaf (ascii ''a_longer_name'') 1 1 (Some (ascii ''12345'')),
       JSONLeaf (ascii ''b'') 1 2 None]"
    by (intro extends_extends_children.intros(4))
  then have e: "extends
     (JSONComposite [] 0 0 [JSONLeaf (ascii ''a'') 1 1 (Some (ascii ''1''))])
     (JSONComposite [] 0 0 [JSONLeaf (ascii ''a_longer_name'') 1 1 (Some (ascii ''12345'')),
                            JSONLeaf (ascii ''b'') 1 2 None])"
    by (intro extends_extends_children.intros(2)) simp
  with grid_width_monotonic
    [of "JSONComposite [] 0 0 [JSONLeaf (ascii ''a'') 1 1 (Some (ascii ''1''))]"
        "JSONComposite [] 0 0 [JSONLeaf (ascii ''a_longer_name'') 1 1 (Some (ascii ''12345'')),
                               JSONLeaf (ascii ''b'') 1 2 None]"]
  show ?thesis by blast
qed

subsection \<open>The builder\<close>

lemma list_loop_acc:
  "list_loop level idx items acc c =
     (acc @ fst (list_loop level idx items [] c), snd (list_loop level idx items [] c))"
proof (induction items arbitrary: idx acc c)
  case Nil
  then show ?case by simp
next
  case (Cons item rest)
  obtain child c' where ch:
    "create_aux (ascii ''Array['' @ str_nat idx @ ascii '']'') (level + 1) item c = (child, c')"
    by (cases "create_aux (ascii ''Array['' @ str_nat idx @ ascii '']'') (level + 1) item c")
  show ?case
    using Cons.IH[of "Suc idx" "acc @ [child]" c'] Cons.IH[of "Suc idx" "[child]" c']
    by (simp add: ch)
qed

lemma dict_loop_acc:
  "dict_loop level kvs acc c =
     (acc @ fst (dict_loop level kvs [] c), snd (dict_loop level kvs [] c))"
proof (induction kvs arbitrary: acc c)
  case Nil
  then show ?case by simp
next
  case (Cons kv rest)
  obtain key val where kv: "kv = (key, val)" by (cases kv)
  obtain child c' where ch: "create_aux key (level + 1) val c = (child, c')"
    by (cases "create_aux key (level + 1) val c")
  show ?case
    using Cons.IH[of "acc @ [child]" c'] Cons.IH[of "[child]" c']
    by (simp add: ch kv)
qed

lemma list_loop_thread:
  "list_loop level idx items [] c =
     thread (\<lambda>(i, x). create_aux (array_name i) (level + 1) x) (enumerate idx items) c"
proof (induction items arbitrary: idx c)
  case Nil
  then show ?case by simp
next
  case (Cons item rest)
  obtain child c' where ch: "create_aux (array_name idx) (level + 1) item c = (child, c')"
    by (cases "create_aux (array_name idx) (level + 1) item c")
  have "list_loop level idx (item # rest) [] c = list_loop level (Suc idx) rest [child] c'"
    using ch by (simp add: array_name_def)
  also have "\<dots> = (child # fst (list_loop level (Suc idx) rest [] c'),
                     snd (list_loop level (Suc idx) rest [] c'))"
    using list_loop_acc[of level "Suc idx" rest "[child]" c'] by simp
  finally show ?case
    by (simp add: Cons.IH ch split: prod.splits)
qed

lemma dict_loop_thread:
  "dict_loop level kvs [] c = thread (\<lambda>(k, x). create_aux k (level + 1) x) kvs c"
proof (induction kvs arbitrary: c)
  case Nil
  then show ?case by simp
next
  case (Cons kv rest)
  obtain key val where kv: "kv = (key, val)" by (cases kv)
  obtain child c' where ch: "create_aux key (level + 1) val c = (child, c')"
    by (cases "create_aux key (level + 1) val c")
  have "dict_loop level (kv # rest) [] c = dict_loop level rest [child] c'"
    using ch by (simp add: kv)
  also have "\<dots> = (child # fst (dict_loop level rest [] c'), snd (dict_loop level rest [] c'))"
    using dict_loop_acc[of level rest "[child]" c'] by simp
  finally show ?case
    by (simp add: Cons.IH ch kv split: prod.splits)
qed

lemma create_aux_JList:
  "create_aux name level (JList obj) c =
     (JSONComposite name level c
        (fst (thread (\<lambda>(i, x). create_aux (array_name i) (level + 1) x) (enumerate 0 obj) (c + 1))),
      snd (thread (\<lambda>(i, x). create_aux (array_name i) (level + 1) x) (enumerate 0 obj) (c + 1)))"
  by (simp add: list_loop_thread split: prod.splits)

lemma create_aux_JDict:
  "create_aux name level (JDict obj) c =
     (JSONComposite name level c
        (fst (thread (\<lambda>(k, x). create_aux k (level + 1) x) obj (c + 1))),
      snd (thread (\<lambda>(k, x). create_aux k (level + 1) x) obj (c + 1)))"
  by (simp add: dict_loop_thread split: prod.splits)



lemma thread_all:
  assumes "\<And>x c n c'. x \<in> set xs \<Longrightarrow> f x c = (n, c') \<Longrightarrow> P n"
    and "thread f xs c = (ns, c')"
  shows "\<forall>n \<in> set ns. P n"
  using assms
proof (induction xs arbitrary: c ns c')
  case Nil
  then show ?case by simp
next
  case (Cons x xs)
  obtain n c1 where f: "f x c = (n, c1)" by (cases "f x c")
  obtain ms c2 where t: "thread f xs c1 = (ms, c2)" by (cases "thread f xs c1")
  from Cons.prems(2) f t have ns: "ns = n # ms" by simp
  have "P n" using Cons.prems(1)[of x c n c1] f by simp
  moreover have "\<forall>m \<in> set ms. P m"
    using Cons.IH[OF _ t] Cons.prems(1) by (meson list.set_intros(2))
  ultimately show ?case using ns by simp
qed

lemma create_aux_levels:
  "create_aux name level obj c = (t, c') \<Longrightarrow> get_level t = level \<and> levels_ok t"
proof (induction obj arbitrary: name level c t c')
  case (JScalar x)
  then show ?case by (auto simp: create_leaf_def split: if_splits)
next
  case (JList xs)
  let ?f = "\<lambda>(i, x). create_aux (array_name i) (level + 1) x"
  obtain ns c1 where th: "thread ?f (enumerate 0 xs) (c + 1) = (ns, c1)"
    by (cases "thread ?f (enumerate 0 xs) (c + 1)")
  have "\<forall>n \<in> set ns. get_level n = level + 1 \<and> levels_ok n"
  proof (rule thread_all[OF _ th])
    fix p c n c'
    assume p: "p \<in> set (enumerate 0 xs)" and f: "?f p c = (n, c')"
    obtain i x where ix: "p = (i, x)" by (cases p)
    with p have "x \<in> set xs" by (auto simp: in_set_enumerate_eq)
    then show "get_level n = level + 1 \<and> levels_ok n"
      using JList.IH[of x "array_name i" "level + 1" c n c'] f ix by simp
  qed
  with JList.prems th show ?case by (auto simp add: create_aux_JList simp del: create_aux.simps)
next
  case (JDict kvs)
  let ?f = "\<lambda>(k, x). create_aux k (level + 1) x"
  obtain ns c1 where th: "thread ?f kvs (c + 1) = (ns, c1)"
    by (cases "thread ?f kvs (c + 1)")
  have "\<forall>n \<in> set ns. get_level n = level + 1 \<and> levels_ok n"
  proof (rule thread_all[OF _ th])
    fix p c n c'
    assume p: "p \<in> set kvs" and f: "?f p c = (n, c')"
    obtain k x where kx: "p = (k, x)" by (cases p)
    then have "x \<in> Basic_BNFs.snds p" by simp
    then show "get_level n = level + 1 \<and> levels_ok n"
      using JDict.IH[OF p, of x k "level + 1" c n c'] f kx by simp
  qed
  with JDict.prems th show ?case by (auto simp add: create_aux_JDict simp del: create_aux.simps)
qed

lemma upto_append_adjacent:
  "(a::int) \<le> b \<Longrightarrow> b \<le> d \<Longrightarrow> [a..b - 1] @ [b..d - 1] = [a..d - 1]"
proof -
  assume ab: "a \<le> b" and bd: "b \<le> d"
  show ?thesis
  proof (cases "b = d")
    case True
    then show ?thesis by simp
  next
    case False
    with bd have "b \<le> d - 1" by simp
    from upto_split1[OF ab this] show ?thesis by simp
  qed
qed

lemma thread_ids:
  assumes "\<And>x c n c'. x \<in> set xs \<Longrightarrow> f x c = (n, c') \<Longrightarrow>
             map get_id (preorder n) = [c..c' - 1] \<and> c < c'"
    and "thread f xs c = (ns, c')"
  shows "map get_id (concat (map preorder ns)) = [c..c' - 1] \<and> c \<le> c'"
  using assms
proof (induction xs arbitrary: c ns c')
  case Nil
  then show ?case by simp
next
  case (Cons x xs)
  obtain n c1 where f: "f x c = (n, c1)" by (cases "f x c")
  obtain ms c2 where t: "thread f xs c1 = (ms, c2)" by (cases "thread f xs c1")
  from Cons.prems(2) f t have ns: "ns = n # ms" and c2: "c2 = c'" by simp_all
  have hd: "map get_id (preorder n) = [c..c1 - 1] \<and> c < c1"
    using Cons.prems(1)[of x c n c1] f by simp
  have tl: "map get_id (concat (map preorder ms)) = [c1..c2 - 1] \<and> c1 \<le> c2"
    using Cons.IH[OF _ t] Cons.prems(1) by (meson list.set_intros(2))
  have "[c..c1 - 1] @ [c1..c2 - 1] = [c..c2 - 1]"
    using hd tl by (intro upto_append_adjacent) simp_all
  then show ?case using hd tl ns c2 by simp
qed

lemma composite_ids:
  assumes "map get_id (concat (map preorder ns)) = [c + 1..c1 - 1] \<and> c + 1 \<le> c1"
  shows "map get_id (preorder (JSONComposite name level c ns)) = [c..c1 - 1] \<and> c < c1"
proof -
  have "c \<le> c1 - 1" using assms by simp
  from upto_rec1[OF this] show ?thesis using assms by simp
qed

lemma create_aux_ids:
  "create_aux name level obj c = (t, c') \<Longrightarrow>
     map get_id (preorder t) = [c..c' - 1] \<and> c < c'"
proof (induction obj arbitrary: name level c t c')
  case (JScalar x)
  then show ?case by (auto simp: create_leaf_def split: if_splits)
next
  case (JList xs)
  let ?f = "\<lambda>(i, x). create_aux (array_name i) (level + 1) x"
  obtain ns c1 where th: "thread ?f (enumerate 0 xs) (c + 1) = (ns, c1)"
    by (cases "thread ?f (enumerate 0 xs) (c + 1)")
  have "map get_id (concat (map preorder ns)) = [c + 1..c1 - 1] \<and> c + 1 \<le> c1"
  proof (rule thread_ids[OF _ th])
    fix p c n c'
    assume p: "p \<in> set (enumerate 0 xs)" and f: "?f p c = (n, c')"
    obtain i x where ix: "p = (i, x)" by (cases p)
    with p have "x \<in> set xs" by (auto simp: in_set_enumerate_eq)
    then show "map get_id (preorder n) = [c..c' - 1] \<and> c < c'"
      using JList.IH[of x "array_name i" "level + 1" c n c'] f ix by simp
  qed
  from composite_ids[OF this, of name level] JList.prems th show ?case
    by (auto simp add: create_aux_JList simp del: create_aux.simps preorder.simps)
next
  case (JDict kvs)
  let ?f = "\<lambda>(k, x). create_aux k (level + 1) x"
  obtain ns c1 where th: "thread ?f kvs (c + 1) = (ns, c1)"
    by (cases "thread ?f kvs (c + 1)")
  have "map get_id (concat (map preorder ns)) = [c + 1..c1 - 1] \<and> c + 1 \<le> c1"
  proof (rule thread_ids[OF _ th])
    fix p c n c'
    assume p: "p \<in> set kvs" and f: "?f p c = (n, c')"
    obtain k x where kx: "p = (k, x)" by (cases p)
    then have "x \<in> Basic_BNFs.snds p" by simp
    then show "map get_id (preorder n) = [c..c' - 1] \<and> c < c'"
      using JDict.IH[OF p, of x k "level + 1" c n c'] f kx by simp
  qed
  from composite_ids[OF this, of name level] JDict.prems th show ?case
    by (auto simp add: create_aux_JDict simp del: create_aux.simps preorder.simps)
qed

lemma levels_ok_descendants:
  "levels_ok t \<Longrightarrow> n \<in> set (concat (map preorder (get_children t))) \<Longrightarrow>
     get_level t < get_level n"
proof (induction t arbitrary: n rule: preorder.induct)
  case (1 name level ident children)
  then obtain c where c: "c \<in> set children" "n \<in> set (preorder c)" by auto
  with 1(2) have lc: "get_level c = level + 1" "levels_ok c" by auto
  show ?case
  proof (cases "n = c")
    case True
    then show ?thesis using lc by simp
  next
    case False
    with c(2) have "n \<in> set (concat (map preorder (get_children c)))"
      using preorder_head[of c] by auto
    from 1(1)[OF c(1) lc(2) this] lc show ?thesis by simp
  qed
next
  case (2 name level ident v)
  then show ?case by simp
qed

lemma levels_ok_only_root:
  assumes "levels_ok t"
  shows "filter (\<lambda>n. get_level n = get_level t) (preorder t) = [t]"
proof -
  have "\<forall>n \<in> set (concat (map preorder (get_children t))). get_level n \<noteq> get_level t"
    using levels_ok_descendants[OF assms] by fastforce
  then have "filter (\<lambda>n. get_level n = get_level t) (concat (map preorder (get_children t))) = []"
    by (simp add: filter_empty_conv)
  then show ?thesis by (subst preorder_head) simp
qed

lemma create_ids: "create json_data c = (t, c') \<Longrightarrow> map get_id (preorder t) = [c..c' - 1]"
  by (simp add: create_def create_aux_ids del: create_aux.simps)




lemma create_example_doc: "create example_doc 0 = (example_tree, 5)"
  by code_simp

text \<open>
  C6. In every tree built by the factory the root has level 0, the level of every child is
  the level of its parent plus one, and the root is the only node of level 0. (The
  statement holds for whatever value the factory holds; a valid document is a special case.)
\<close>

theorem created_levels:
  "create json_data c = (t, c') \<Longrightarrow>
     get_level t = 0 \<and> levels_ok t \<and> filter (\<lambda>n. get_level n = 0) (preorder t) = [t]"
proof -
  assume "create json_data c = (t, c')"
  then have l: "get_level t = 0 \<and> levels_ok t"
    using create_aux_levels[of "[]" 0 json_data c t c'] by (simp add: create_def)
  then show ?thesis using levels_ok_only_root[of t] by simp
qed

theorem created_levels_witness:
  "create example_doc 0 = (example_tree, 5)
   \<and> get_level example_tree = 0 \<and> levels_ok example_tree
   \<and> filter (\<lambda>n. get_level n = 0) (preorder example_tree) = [example_tree]"
  using created_levels[OF create_example_doc] create_example_doc by simp

text \<open>
  C7. In a tree built by one invocation of the factory the node ids are pairwise distinct,
  and the pre-order listing of the tree lists the nodes in strictly increasing order of id:
  the ids are the consecutive values of the counter, from its value before the invocation
  up to, and not including, its value afterwards.
\<close>

theorem created_ids_increasing:
  "create json_data c = (t, c') \<Longrightarrow>
     distinct (map get_id (preorder t))
     \<and> sorted_wrt (<) (map get_id (preorder t))
     \<and> map get_id (preorder t) = [c..c' - 1]"
proof -
  assume "create json_data c = (t, c')"
  then have "map get_id (preorder t) = [c..c' - 1]" by (rule create_ids)
  then show ?thesis by simp
qed

theorem created_ids_increasing_witness:
  "create example_doc 0 = (example_tree, 5)
   \<and> distinct (map get_id (preorder example_tree))
   \<and> sorted_wrt (<) (map get_id (preorder example_tree))
   \<and> map get_id (preorder example_tree) = [0..5 - 1]"
  using created_ids_increasing[OF create_example_doc] create_example_doc by simp

subsection \<open>The first/last analysis pass\<close>

lemma fold_fl_visit:
  "xs \<noteq> [] \<Longrightarrow> fold fl_visit xs s =
     \<lparr>first_visited = True,
      first_id = (if first_visited s then first_id s else Some (get_id (hd xs))),
      last_id = Some (get_id (last xs))\<rparr>"
proof (induction xs arbitrary: s)
  case Nil
  then show ?case by simp
next
  case (Cons x xs)
  show ?case
  proof (cases "xs = []")
    case True
    then show ?thesis by (simp add: fl_visit_def)
  next
    case False
    from Cons.IH[OF False, of "fl_visit x s"] False show ?thesis
      by (simp add: fl_visit_def)
  qed
qed

lemma visit_FirstLastVisitor: "visit FirstLastVisitor = fl_visit"
  by (auto simp: visit_def FirstLastVisitor_def fun_eq_iff)

lemma accept_FirstLastVisitor:
  "accept FirstLastVisitor t FirstLastVisitor_init =
     \<lparr>first_visited = True, first_id = Some (get_id t),
      last_id = Some (get_id (last (preorder t)))\<rparr>"
proof -
  have ne: "preorder t \<noteq> []" and h: "hd (preorder t) = t" by (cases t; simp)+
  show ?thesis
    using fold_fl_visit[OF ne, of FirstLastVisitor_init] h
    by (simp add: accept_fold_preorder visit_FirstLastVisitor FirstLastVisitor_init_def)
qed

lemma filter_distinct_key:
  "distinct (map f xs) \<Longrightarrow> x \<in> set xs \<Longrightarrow> filter (\<lambda>n. f n = f x) xs = [x]"
proof (induction xs)
  case Nil
  then show ?case by simp
next
  case (Cons y ys)
  show ?case
  proof (cases "y = x")
    case True
    with Cons.prems(1) have "f x \<notin> f ` set ys" by simp
    then have "\<forall>n \<in> set ys. f n \<noteq> f x" by (metis imageI)
    then have "filter (\<lambda>n. f n = f x) ys = []" by (simp add: filter_empty_conv)
    with True show ?thesis by simp
  next
    case False
    with Cons.prems have x: "x \<in> set ys" and "f y \<noteq> f x" by auto
    with Cons show ?thesis by simp
  qed
qed

lemma created_root: "create json_data c = (t, c') \<Longrightarrow> is_root t"
  using create_aux_levels[of "[]" 0 json_data c t c'] by (simp add: create_def is_root_def)

lemma created_non_root_not_first:
  assumes "create json_data c = (t, c')" "n \<in> set (preorder t)" "\<not> is_root n"
  shows "\<not> is_first (accept FirstLastVisitor t FirstLastVisitor_init) n"
proof
  assume "is_first (accept FirstLastVisitor t FirstLastVisitor_init) n"
  then have eq: "get_id n = get_id t"
    by (simp add: is_first_def accept_FirstLastVisitor)
  have "distinct (map get_id (preorder t))"
    using create_ids[OF assms(1)] by simp
  then have "inj_on get_id (set (preorder t))" by (simp add: distinct_map)
  moreover have "t \<in> set (preorder t)" by (cases t; simp)
  ultimately have "n = t" using eq assms(2) by (meson inj_onD)
  with created_root[OF assms(1)] assms(3) show False by simp
qed

text \<open>
  C3. After the first/last pass has traversed a tree built by the factory, \<open>is_first\<close> holds
  for exactly one node of the tree, the root, and \<open>is_last\<close> for exactly one node, the last
  node of the pre-order traversal. Hence \<open>is_first\<close> is false for every node that is not the
  root, that is, for every node the renderer emits a line for (\<open>render_node\<close> returns at
  once on a node with \<open>is_root\<close>).
\<close>

theorem first_last_on_created:
  assumes "create json_data c = (t, c')"
  shows "filter (is_first (accept FirstLastVisitor t FirstLastVisitor_init)) (preorder t) = [t]
   \<and> filter (is_last (accept FirstLastVisitor t FirstLastVisitor_init)) (preorder t)
        = [last (preorder t)]
   \<and> (\<forall>n \<in> set (preorder t).
          \<not> is_root n \<longrightarrow> \<not> is_first (accept FirstLastVisitor t FirstLastVisitor_init) n)"
proof -
  let ?fl = "accept FirstLastVisitor t FirstLastVisitor_init"
  have d: "distinct (map get_id (preorder t))"
    using create_ids[OF assms] by simp
  have ne: "preorder t \<noteq> []" and tin: "t \<in> set (preorder t)" by (cases t; simp)+
  have f: "is_first ?fl = (\<lambda>n. get_id n = get_id t)"
    by (auto simp: is_first_def accept_FirstLastVisitor fun_eq_iff)
  have l: "is_last ?fl = (\<lambda>n. get_id n = get_id (last (preorder t)))"
    by (auto simp: is_last_def accept_FirstLastVisitor fun_eq_iff)
  have 1: "filter (is_first ?fl) (preorder t) = [t]"
    unfolding f by (rule filter_distinct_key[OF d tin])
  have 2: "filter (is_last ?fl) (preorder t) = [last (preorder t)]"
    unfolding l by (rule filter_distinct_key[OF d last_in_set[OF ne]])
  have 3: "\<not> is_first ?fl n" if "n \<in> set (preorder t)" "\<not> is_root n" for n
    using created_non_root_not_first[OF assms that] .
  from 1 2 3 show ?thesis by blast
qed

theorem first_last_on_created_witness:
  "create example_doc 0 = (example_tree, 5)
   \<and> JSONLeaf (ascii ''a'') 1 1 (Some (ascii ''1'')) \<in> set (preorder example_tree)
   \<and> \<not> is_root (JSONLeaf (ascii ''a'') 1 1 (Some (ascii ''1'')))
   \<and> \<not> is_first (accept FirstLastVisitor example_tree FirstLastVisitor_init)
         (JSONLeaf (ascii ''a'') 1 1 (Some (ascii ''1'')))
   \<and> filter (is_first (accept FirstLastVisitor example_tree FirstLastVisitor_init))
        (preorder example_tree) = [example_tree]
   \<and> filter (is_last (accept FirstLastVisitor example_tree FirstLastVisitor_init))
        (preorder example_tree) = [JSONLeaf (ascii ''Array[1]'') 2 4 None]"
proof -
  note k = first_last_on_created[OF create_example_doc]
  have m: "JSONLeaf (ascii ''a'') 1 1 (Some (ascii ''1'')) \<in> set (preorder example_tree)"
    by (simp add: example_tree_def)
  have r: "\<not> is_root (JSONLeaf (ascii ''a'') 1 1 (Some (ascii ''1'')))"
    by (simp add: is_root_def)
  have la: "last (preorder example_tree) = JSONLeaf (ascii ''Array[1]'') 2 4 None"
    by (simp add: example_tree_def)
  from k m r la create_example_doc show ?thesis by auto
qed

subsection \<open>The renderer\<close>

lemma length_str_mul: "length (str_mul s n) = nat n * length s"
  by (simp add: str_mul_def length_concat sum_list_replicate)

lemma render_line_length:
  assumes icons: "length (leaf_icon (rv_icon_family rv)) = 1"
      "length (composite_icon (rv_icon_family rv)) = 1"
    and lvl: "1 \<le> get_level n"
    and nf: "\<not> is_first (rv_fl_visitor rv) n"
  shows "int (length (render_line rv n)) =
     (if get_level n = 1 \<and> is_last (rv_fl_visitor rv) n
      then max (rv_grid_width rv) (spec_width n + 3)
      else max (rv_grid_width rv) (spec_width n))"
proof (cases n)
  case (JSONComposite name level ident children)
  with assms show ?thesis
    by (auto simp: render_line_def Let_def ljust_def length_str_mul ascii_def
        spec_width_def spec_prefix_length_def spec_name_length_def)
next
  case (JSONLeaf name level ident v)
  with assms show ?thesis
    by (cases v)
       (auto simp: render_line_def Let_def ljust_def length_str_mul ascii_def
        spec_width_def spec_prefix_length_def spec_name_length_def)
qed

lemma fold_render_node:
  "fold (render_node rv) xs out = out @ map (render_line rv) (filter (\<lambda>n. \<not> is_root n) xs)"
  by (induction xs arbitrary: out) (simp_all add: render_node_def)

lemma visit_RenderVisitor: "visit (RenderVisitor rv) = render_node rv"
  by (auto simp: visit_def RenderVisitor_def fun_eq_iff)

lemma render_lines:
  "render st out = out @ map (render_line \<lparr>rv_grid_width = ss_grid_width_visitor st,
                            rv_fl_visitor = ss_fl_visitor st,
                            rv_icon_family = ss_icon_family st\<rparr>)
        (filter (\<lambda>n. \<not> is_root n) (preorder (ss_root st)))"
  by (simp add: render_def accept_fold_preorder visit_RenderVisitor fold_render_node)

lemma created_line_widths:
  assumes cr: "create json_data c = (t, c')"
    and icons: "length (leaf_icon fam) = 1" "length (composite_icon fam) = 1"
    and st: "st = StarStyledJSONNode_init t fam"
    and rv: "rv = \<lparr>rv_grid_width = ss_grid_width_visitor st, rv_fl_visitor = ss_fl_visitor st,
                  rv_icon_family = ss_icon_family st\<rparr>"
    and n: "n \<in> set (preorder t)" "\<not> is_root n"
  shows "int (length (render_line rv n)) =
     (if get_level n = 1 \<and> is_last (ss_fl_visitor st) n
      then max (ss_grid_width_visitor st) (spec_width n + 3)
      else ss_grid_width_visitor st)"
proof -
  have lv: "get_level t = 0" "levels_ok t"
    using cr create_aux_levels[of "[]" 0 json_data c t c'] by (simp_all add: create_def)
  have "n \<noteq> t" using n(2) lv(1) by (auto simp: is_root_def)
  with n(1) have "n \<in> set (concat (map preorder (get_children t)))"
    using preorder_head[of t] by auto
  from levels_ok_descendants[OF lv(2) this] lv(1) have l1: "1 \<le> get_level n" by simp
  have nf: "\<not> is_first (rv_fl_visitor rv) n"
    using created_non_root_not_first[OF cr n] by (simp add: rv st StarStyledJSONNode_init_def)
  have w: "spec_width n \<le> rv_grid_width rv"
    using grid_width_ge_node[OF n(1)] by (simp add: rv st StarStyledJSONNode_init_def)
  have "length (leaf_icon (rv_icon_family rv)) = 1" "length (composite_icon (rv_icon_family rv)) = 1"
    using icons by (simp_all add: rv st StarStyledJSONNode_init_def)
  from render_line_length[OF this l1 nf] w show ?thesis
    by (simp add: rv st StarStyledJSONNode_init_def)
qed


text \<open>
  C1. Every line the renderer emits has exactly \<open>grid_width\<close> columns. The program does not
  do this for the document \<open>{"a": 1}\<close> rendered with the default icon family (two icons of
  one column each): the width analysis gives 16, and the only line emitted, for the leaf
  \<open>a\<close>, has 17 characters. The leaf is at depth 1 and is the last node visited, so the
  renderer gives it the closing joint of three characters, which the width analysis does not
  count for a node of depth 1. (The lemma \<open>created_line_widths\<close> above shows that this is
  the only kind of node whose line can differ from \<open>grid_width\<close>.)
\<close>

theorem small_doc_line_exceeds_grid_width:
  "ss_grid_width_visitor (StarStyledJSONNode_init (fst (create small_doc 0)) default_icon_family)
     = 16
   \<and> map length
        (render (StarStyledJSONNode_init (fst (create small_doc 0)) default_icon_family) [])
     = [17]"
  by code_simp

subsection \<open>Rejected documents\<close>

text \<open>
  C9. When the value parsed from the file is neither a mapping nor a sequence, the
  construction of the factory fails with the invalid-root error; \<open>create_styled_json\<close> then
  fails with that error and leaves the counter of node ids as it was: no node is built, no
  styled tree exists, and so nothing is traversed or rendered.
\<close>

theorem scalar_root_rejected:
  assumes "files filepath = Some text" "json_load text = Inr json_data"
    "\<not> is_dict_or_list json_data"
  shows "JSONNodeFactory_init json_load files filepath = Inl FJE_InvalidRoot
   \<and> (icon_families icon_family = Some fam \<longrightarrow> styles_factory style = Some style_factory \<longrightarrow>
        create_styled_json json_load files icon_families styles_factory
          filepath icon_family style c = (Inl FJE_InvalidRoot, c))"
  using assms by (simp add: JSONNodeFactory_init_def create_styled_json_def)

theorem scalar_root_rejected_witness:
  "JSONNodeFactory_init (\<lambda>text. Inr (JScalar (PyStr (ascii ''hello''))))
      [ascii ''doc.json'' \<mapsto> 34 # ascii ''hello'' @ [34]] (ascii ''doc.json'')
     = Inl FJE_InvalidRoot
   \<and> create_styled_json (\<lambda>text. Inr (JScalar (PyStr (ascii ''hello''))))
      [ascii ''doc.json'' \<mapsto> 34 # ascii ''hello'' @ [34]]
      [ascii ''default'' \<mapsto> default_icon_family]
      [ascii ''star'' \<mapsto> StarStyledJSONNode_init]
      (ascii ''doc.json'') (ascii ''default'') (ascii ''star'') 0
     = (Inl FJE_InvalidRoot, 0)"
  using scalar_root_rejected
    [of "[ascii ''doc.json'' \<mapsto> 34 # ascii ''hello'' @ [34]]" "ascii ''doc.json''"
        "34 # ascii ''hello'' @ [34]" "\<lambda>text. Inr (JScalar (PyStr (ascii ''hello'')))"
        "JScalar (PyStr (ascii ''hello''))"
        "[ascii ''default'' \<mapsto> default_icon_family]" "ascii ''default''"
        default_icon_family "[ascii ''star'' \<mapsto> StarStyledJSONNode_init]"
        "ascii ''star''" StarStyledJSONNode_init 0]
  by simp

text \<open>
  C10. A freshly constructed first/last visitor that has not traversed any tree answers
  false to \<open>is_first\<close> and to \<open>is_last\<close> for every node: both recorded ids are \<open>None\<close>,
  which is never equal to a node's integer id.
\<close>

theorem fresh_first_last_false:
  "is_first FirstLastVisitor_init n = False \<and> is_last FirstLastVisitor_init n = False"
  by (simp add: is_first_def is_last_def FirstLastVisitor_init_def)

end
